theory Spec2Isabelle
  imports Main
begin

section \<open>ann\_scraper: the index store, the documents and the fetch loop\<close>

text \<open>
  A shallow embedding of \<^verbatim>\<open>src/ann_scraper.py\<close>. The SQLite table \<^verbatim>\<open>entry\<close> is a list of
  rows, an XML document is the list of the children of its root, exceptions are values of
  \<open>error\<close>. Catalogue ids are decimal numerals: the text of an \<^verbatim>\<open>id\<close> attribute and the
  integer that SQLite's INTEGER affinity makes of it are identified, so an id is an \<open>int\<close>,
  and \<open>None\<close> stands for an absent attribute or child (Python's \<^verbatim>\<open>None\<close>, SQL's NULL).
\<close>

subsection \<open>Data\<close>

datatype error = KeyError | IntegrityError | ZeroDivisionError | ValueError | URLError

text \<open>An element of a document: its tag and the two attributes the program reads.\<close>

record node =
  tag :: string
  attrib_id :: "int option"
  attrib_generated_on :: "string option"

subsection \<open>The table \<^verbatim>\<open>entry\<close>\<close>

text \<open>
  The namedtuple \<^verbatim>\<open>Entry\<close>. As a tuple of values to insert its id is optional
  (\<open>int option Entry\<close>); as a row of the table the id is the INTEGER PRIMARY KEY
  (\<open>int Entry\<close>). The table is the list of its rows.
\<close>

record 'i Entry =
  e_id :: 'i
  e_gid :: "string option"
  e_type :: "string option"
  e_name :: "string option"
  e_precision :: "string option"
  e_vintage :: "string option"
  e_generated_on :: "string option"

type_synonym table = "int Entry list"

text \<open>An element of \<^verbatim>\<open>index.xml\<close>: its tag and the text of the six children that are read.\<close>

record index_node =
  i_tag :: string
  i_id :: "int option"
  i_gid :: "string option"
  i_type :: "string option"
  i_name :: "string option"
  i_precision :: "string option"
  i_vintage :: "string option"

definition index_to_tuple :: "index_node \<Rightarrow> int option Entry" where
  "index_to_tuple n =
     \<lparr>e_id = i_id n, e_gid = i_gid n, e_type = i_type n, e_name = i_name n,
      e_precision = i_precision n, e_vintage = i_vintage n, e_generated_on = None\<rparr>"

definition entry_to_tuple :: "node \<Rightarrow> string option \<times> int option" where
  "entry_to_tuple n = (attrib_generated_on n, attrib_id n)"

text \<open>
  \<^verbatim>\<open>insert_entries\<close>: SQLite gives a row inserted with a NULL key the largest key plus one
  (1 in an empty table) and refuses a key that is already there
  (\<^verbatim>\<open>sqlite3.IntegrityError\<close>).
\<close>

definition next_rowid :: "table \<Rightarrow> int" where
  "next_rowid rows = (if rows = [] then 1 else Max (set (map e_id rows)) + 1)"

definition with_id :: "int \<Rightarrow> int option Entry \<Rightarrow> int Entry" where
  "with_id k v =
     \<lparr>e_id = k, e_gid = e_gid v, e_type = e_type v, e_name = e_name v,
      e_precision = e_precision v, e_vintage = e_vintage v,
      e_generated_on = e_generated_on v\<rparr>"

fun insert_entries :: "table \<Rightarrow> int option Entry list \<Rightarrow> error + table" where
  "insert_entries rows [] = Inr rows"
| "insert_entries rows (v # vs) =
     (case e_id v of
        None \<Rightarrow> insert_entries (rows @ [with_id (next_rowid rows) v]) vs
      | Some k \<Rightarrow>
          if k \<in> set (map e_id rows) then Inl IntegrityError
          else insert_entries (rows @ [with_id k v]) vs)"

text \<open>
  \<^verbatim>\<open>update_entries\<close>: one \<^verbatim>\<open>update entry set generated_on=? where entry.id=?\<close> for each
  pair, in order. A NULL id matches no row.
\<close>

definition update_entry :: "table \<Rightarrow> string option \<times> int option \<Rightarrow> table" where
  "update_entry rows v =
     map (\<lambda>r. if Some (e_id r) = snd v then r\<lparr>e_generated_on := fst v\<rparr> else r) rows"

definition update_entries :: "table \<Rightarrow> (string option \<times> int option) list \<Rightarrow> table" where
  "update_entries rows vals = foldl update_entry rows vals"

text \<open>
  The \<^verbatim>\<open>where\<close> clause of the queries:
  \<^verbatim>\<open>entry.type {} in ('manga', 'anthology')\<close>, with \<^verbatim>\<open>not\<close> in the hole exactly when
  \<^verbatim>\<open>entry_type == 'anime'\<close>. On a NULL type both forms are NULL, which selects nothing.
\<close>

definition type_clause :: "string \<Rightarrow> 'i Entry \<Rightarrow> bool" where
  "type_clause entry_type r =
     (case e_type r of
        None \<Rightarrow> False
      | Some t \<Rightarrow>
          if entry_type = ''anime'' then t \<notin> {''manga'', ''anthology''}
          else t \<in> {''manga'', ''anthology''})"

definition seen_clause :: "string \<Rightarrow> 'i Entry \<Rightarrow> bool" where
  "seen_clause entry_type r = (type_clause entry_type r \<and> e_generated_on r \<noteq> None)"

definition select_total_id :: "table \<Rightarrow> string \<Rightarrow> int list" where
  "select_total_id rows entry_type = map e_id (filter (type_clause entry_type) rows)"

definition select_seen_id :: "table \<Rightarrow> string \<Rightarrow> int list" where
  "select_seen_id rows entry_type = map e_id (filter (seen_clause entry_type) rows)"

definition unseen :: "table \<Rightarrow> string \<Rightarrow> int set" where
  "unseen rows entry_type = set (select_total_id rows entry_type) - set (select_seen_id rows entry_type)"

subsection \<open>\<^verbatim>\<open>progress\<close> and the status report of \<^verbatim>\<open>main\<close>\<close>

definition progress :: "table \<Rightarrow> string \<Rightarrow> int \<times> int" where
  "progress rows entry_type =
     (let total_n = int (length (filter (type_clause entry_type) rows));
          seen_n = int (length (filter (seen_clause entry_type) rows))
      in (seen_n, total_n))"

text \<open>
  \<^verbatim>\<open>main\<close> with \<^verbatim>\<open>--status\<close>: the message is built from \<^verbatim>\<open>seen/total*100\<close> and the two
  counts. The float of the percentage is not modelled; the division raises
  \<^verbatim>\<open>ZeroDivisionError\<close> when \<^verbatim>\<open>total\<close> is 0. The result is the pair that is logged.
\<close>

definition status :: "table \<Rightarrow> string \<Rightarrow> error + int \<times> int" where
  "status rows entry_type =
     (case progress rows entry_type of
        (seen_n, total_n) \<Rightarrow>
          if total_n = 0 then Inl ZeroDivisionError else Inr (seen_n, total_n))"

subsection \<open>\<^verbatim>\<open>remove_duplicates\<close>\<close>

text \<open>
  \<^verbatim>\<open>for node in root\<close> iterates an \<^verbatim>\<open>Element\<close> through \<^verbatim>\<open>__len__\<close>/\<^verbatim>\<open>__getitem__\<close>
  (the class has no \<^verbatim>\<open>__iter__\<close>): the loop reads \<^verbatim>\<open>root[i]\<close> for \<open>i = 0, 1, \<dots>\<close> until the
  index is out of range, against the list as it is at that moment. The elements of a parsed
  tree are pairwise different objects and \<^verbatim>\<open>Element\<close> has no \<^verbatim>\<open>__eq__\<close>, so
  \<^verbatim>\<open>root.remove(node)\<close> deletes exactly the child at the current index.
  \<^verbatim>\<open>node.attrib['id']\<close> raises \<^verbatim>\<open>KeyError\<close> on an element without the attribute.
\<close>

definition remove_at :: "nat \<Rightarrow> 'a list \<Rightarrow> 'a list" where
  "remove_at i xs = take i xs @ drop (Suc i) xs"

function remove_duplicates_loop :: "nat \<Rightarrow> int set \<Rightarrow> node list \<Rightarrow> error + node list" where
  "remove_duplicates_loop i seen_ids root =
     (if i < length root then
        (case attrib_id (root ! i) of
           None \<Rightarrow> Inl KeyError
         | Some entry_id \<Rightarrow>
             remove_duplicates_loop (Suc i) (insert entry_id seen_ids)
               (if entry_id \<in> seen_ids then remove_at i root else root))
      else Inr root)"
  by pat_completeness auto
termination
  by (relation "measure (\<lambda>(i, seen_ids, root). length root - i)") (auto simp: remove_at_def)

definition remove_duplicates :: "node list \<Rightarrow> error + node list" where
  "remove_duplicates root = remove_duplicates_loop 0 {} root"

subsection \<open>\<^verbatim>\<open>regenerate_database\<close>\<close>

text \<open>
  The files of the data directory: \<open>None\<close> is a file that does not exist. The database
  file holds the committed table. \<open>list_api\<close> is the answer of the catalogue to the request
  for the master list (\<^verbatim>\<open>download_cached\<close> asks only when \<^verbatim>\<open>index.xml\<close> is absent).
  When an exception leaves the function, only the exception is returned.
\<close>

record files =
  ann_db :: "table option"
  index_xml :: "index_node list option"
  anime_xml :: "node list option"
  manga_xml :: "node list option"

text \<open>
  One round of the loop over \<^verbatim>\<open>('anime', 'manga')\<close>: an absent file is skipped, a present
  one is rewritten by \<^verbatim>\<open>remove_duplicates\<close>, read again, and every child of its root
  updates the table.
\<close>

definition read_cached :: "table \<Rightarrow> node list option \<Rightarrow> error + table \<times> node list option" where
  "read_cached conn entry_path =
     (case entry_path of
        None \<Rightarrow> Inr (conn, None)
      | Some root \<Rightarrow>
          (case remove_duplicates root of
             Inl e \<Rightarrow> Inl e
           | Inr root' \<Rightarrow> Inr (update_entries conn (map entry_to_tuple root'), Some root')))"

definition regenerate_database :: "(error + index_node list) \<Rightarrow> files \<Rightarrow> error + files" where
  "regenerate_database list_api fs =
     (case (case index_xml fs of None \<Rightarrow> list_api | Some t \<Rightarrow> Inr t) of
        Inl e \<Rightarrow> Inl e
      | Inr index \<Rightarrow>
          (case insert_entries [] (map index_to_tuple (filter (\<lambda>n. i_tag n = ''item'') index)) of
             Inl e \<Rightarrow> Inl e
           | Inr conn0 \<Rightarrow>
               (case read_cached conn0 (anime_xml fs) of
                  Inl e \<Rightarrow> Inl e
                | Inr (conn1, anime') \<Rightarrow>
                    (case read_cached conn1 (manga_xml fs) of
                       Inl e \<Rightarrow> Inl e
                     | Inr (conn2, manga') \<Rightarrow>
                         Inr \<lparr>ann_db = Some conn2, index_xml = Some index,
                              anime_xml = anime', manga_xml = manga'\<rparr>))))"

subsection \<open>\<^verbatim>\<open>download_entries\<close>\<close>

text \<open>
  The state of the function: its local variables, the table as the connection sees it
  (\<open>conn\<close>), the table of the database file (\<open>committed\<close>, changed by
  \<^verbatim>\<open>conn.commit()\<close> only), the file \<^verbatim>\<open>{entry_type}.xml\<close> (\<open>local_xml\<close>), and what the
  outside observes: the id sets requested from the catalogue, in order, and the counts of
  the progress messages.
\<close>

record fetch_state =
  conn :: table
  committed :: table
  local_xml :: "node list option"
  local_root :: "node list"
  not_seen :: "int set"
  num_entries :: int
  num_batch :: int
  to_download :: "int set"
  tree :: "node list"
  children :: "node list"
  requested :: "int set list"
  reported :: "(int \<times> int) list"

type_synonym 's stage = "'s \<Rightarrow> error \<times> 's + 's"

text \<open>Statements in sequence: the first exception ends the run, with the state it left.\<close>

fun run :: "'s stage list \<Rightarrow> 's stage" where
  "run [] s = Inr s"
| "run (f # fs) s = (case f s of Inl e \<Rightarrow> Inl e | Inr s' \<Rightarrow> run fs s')"

text \<open>
  Line 133 (\<open>choose_batch\<close>) and lines 136-139 (\<open>next_batch\<close>). \<open>sample S k\<close> is the
  list \<^verbatim>\<open>random.sample(S, k)\<close> returns (of a Python
  whose \<^verbatim>\<open>random.sample\<close> takes a set); it is called with \<open>k\<close> below the size of \<open>S\<close>, and
  raises \<^verbatim>\<open>ValueError\<close> on a negative \<open>k\<close>.
\<close>

definition next_batch :: "(int set \<Rightarrow> nat \<Rightarrow> int list) \<Rightarrow> int set \<Rightarrow> int \<Rightarrow> error + int set" where
  "next_batch sample ns nb =
     (if int (card ns) \<le> nb then Inr ns
      else if nb < 0 then Inl ValueError
      else Inr (set (sample ns (nat nb))))"

definition choose_batch :: "(int set \<Rightarrow> nat \<Rightarrow> int list) \<Rightarrow> fetch_state stage" where
  "choose_batch sample s =
     (let nb = min (num_batch s) (num_entries s); s' = s\<lparr>num_batch := nb\<rparr> in
      case next_batch sample (not_seen s) nb of
        Inl e \<Rightarrow> Inl (e, s')
      | Inr b \<Rightarrow> Inr (s'\<lparr>to_download := b\<rparr>))"

text \<open>
  Lines 141-148. \<open>api k entry_type ids\<close> is the parsed answer of the catalogue to the
  \<open>k\<close>-th request of the run (the children of its root), or the exception of
  \<^verbatim>\<open>urlopen\<close>.
\<close>

definition request :: "(nat \<Rightarrow> string \<Rightarrow> int set \<Rightarrow> error + node list) \<Rightarrow> string \<Rightarrow> fetch_state stage" where
  "request api entry_type s =
     (let s' = s\<lparr>requested := requested s @ [to_download s]\<rparr> in
      case api (length (requested s)) entry_type (to_download s) of
        Inl e \<Rightarrow> Inl (e, s')
      | Inr t \<Rightarrow> Inr (s'\<lparr>tree := t\<rparr>))"

text \<open>Lines 150-153: extend the local copy and write it to disk.\<close>

definition persist :: "string \<Rightarrow> fetch_state stage" where
  "persist entry_type s =
     (let ch = filter (\<lambda>n. tag n = entry_type) (tree s);
          root = local_root s @ ch
      in Inr (s\<lparr>children := ch, local_root := root, local_xml := Some root\<rparr>))"

text \<open>Lines 155-160: update the table (not yet committed), then the two counters.\<close>

definition mark :: "fetch_state stage" where
  "mark s =
     Inr (s\<lparr>conn := update_entries (conn s) (map entry_to_tuple (children s)),
            not_seen := not_seen s - to_download s,
            num_entries := num_entries s - num_batch s\<rparr>)"

text \<open>Lines 162-165: the progress message divides by \<^verbatim>\<open>num_total\<close>.\<close>

definition report :: "int list \<Rightarrow> fetch_state stage" where
  "report total_id s =
     (let num_total = int (length total_id);
          num_seen = num_total - int (card (not_seen s))
      in if num_total = 0 then Inl (ZeroDivisionError, s)
         else Inr (s\<lparr>reported := reported s @ [(num_seen, num_total)]\<rparr>))"

text \<open>Line 167.\<close>

definition commit :: "fetch_state stage" where
  "commit s = Inr (s\<lparr>committed := conn s\<rparr>)"

definition body :: "(nat \<Rightarrow> string \<Rightarrow> int set \<Rightarrow> error + node list) \<Rightarrow> (int set \<Rightarrow> nat \<Rightarrow> int list) \<Rightarrow>
    string \<Rightarrow> int list \<Rightarrow> fetch_state stage list" where
  "body api sample entry_type total_id =
     [choose_batch sample, request api entry_type, persist entry_type, mark,
      report total_id, commit]"

text \<open>
  The \<^verbatim>\<open>while num_entries > 0\<close> loop. It need not end (a batch size of 0 never lowers
  \<^verbatim>\<open>num_entries\<close>), so not returning is the value \<open>None\<close>.
\<close>

partial_function (option) fetch_loop ::
  "(nat \<Rightarrow> string \<Rightarrow> int set \<Rightarrow> error + node list) \<Rightarrow> (int set \<Rightarrow> nat \<Rightarrow> int list) \<Rightarrow>
   string \<Rightarrow> int list \<Rightarrow> fetch_state \<Rightarrow> (error \<times> fetch_state + fetch_state) option" where
  "fetch_loop api sample entry_type total_id s =
     (if num_entries s > 0 then
        (case run (body api sample entry_type total_id) s of
           Inl e \<Rightarrow> Some (Inl e)
         | Inr s' \<Rightarrow> fetch_loop api sample entry_type total_id s')
      else Some (Inr s))"

declare fetch_loop.simps [code]

text \<open>
  Lines 109-130: the two queries, the count of a negative request, and the local copy
  (empty when the file does not exist). \<open>rows\<close> is the table of the open connection, with
  nothing uncommitted; \<open>doc\<close> is the file \<^verbatim>\<open>{entry_type}.xml\<close>.
\<close>

definition initial_state :: "table \<Rightarrow> node list option \<Rightarrow> string \<Rightarrow> int \<Rightarrow> int \<Rightarrow> fetch_state" where
  "initial_state rows doc entry_type n nb =
     (let total_id = select_total_id rows entry_type;
          seen_id = select_seen_id rows entry_type;
          ns = set total_id - set seen_id
      in \<lparr>conn = rows, committed = rows, local_xml = doc,
          local_root = (case doc of None \<Rightarrow> [] | Some root \<Rightarrow> root),
          not_seen = ns,
          num_entries = (if n < 0 then int (card ns) else n),
          num_batch = nb, to_download = {}, tree = [], children = [],
          requested = [], reported = []\<rparr>)"

definition download_entries ::
  "(nat \<Rightarrow> string \<Rightarrow> int set \<Rightarrow> error + node list) \<Rightarrow> (int set \<Rightarrow> nat \<Rightarrow> int list) \<Rightarrow>
   table \<Rightarrow> node list option \<Rightarrow> string \<Rightarrow> int \<Rightarrow> int \<Rightarrow> (error \<times> fetch_state + fetch_state) option" where
  "download_entries api sample rows doc entry_type n nb =
     fetch_loop api sample entry_type (select_total_id rows entry_type)
       (initial_state rows doc entry_type n nb)"

text \<open>
  What a crash can leave behind: the document file and the committed table after each
  statement group of one round of the loop (after none of them, after the first, ...).
\<close>

definition durable :: "error \<times> fetch_state + fetch_state \<Rightarrow> node list option \<times> table" where
  "durable r = (case r of Inl (e, s) \<Rightarrow> (local_xml s, committed s) | Inr s \<Rightarrow> (local_xml s, committed s))"

definition crash_points :: "fetch_state stage list \<Rightarrow> fetch_state \<Rightarrow> (node list option \<times> table) list" where
  "crash_points stages s = map (\<lambda>k. durable (run (take k stages) s)) [0 ..< Suc (length stages)]"

subsection \<open>The contract of \<^verbatim>\<open>random.sample\<close> and concrete inputs\<close>

text \<open>
  \<^verbatim>\<open>random.sample(population, k)\<close> "chooses k unique random elements from a population
  sequence or set": for \<open>k\<close> up to the size of the population, a list of \<open>k\<close> different
  members of it.
\<close>

definition random_sample_ok :: "(int set \<Rightarrow> nat \<Rightarrow> int list) \<Rightarrow> bool" where
  "random_sample_ok sample =
     (\<forall>S k. finite S \<longrightarrow> k \<le> card S \<longrightarrow>
        length (sample S k) = k \<and> distinct (sample S k) \<and> set (sample S k) \<subseteq> S)"

text \<open>One sampler that meets the contract: the \<open>k\<close> smallest ids.\<close>

definition smallest_sample :: "int set \<Rightarrow> nat \<Rightarrow> int list" where
  "smallest_sample S k = take k (sorted_list_of_set S)"

text \<open>The ids of a document, in order.\<close>

definition ids_of :: "node list \<Rightarrow> int option list" where
  "ids_of root = map attrib_id root"

definition mk_node :: "string \<Rightarrow> int \<Rightarrow> string \<Rightarrow> node" where
  "mk_node t i d = \<lparr>tag = t, attrib_id = Some i, attrib_generated_on = Some d\<rparr>"

definition mk_row :: "int \<Rightarrow> string \<Rightarrow> string option \<Rightarrow> int Entry" where
  "mk_row k t g =
     \<lparr>e_id = k, e_gid = None, e_type = Some t, e_name = None, e_precision = None,
      e_vintage = None, e_generated_on = g\<rparr>"

definition mk_item :: "int \<Rightarrow> string \<Rightarrow> index_node" where
  "mk_item k t =
     \<lparr>i_tag = ''item'', i_id = Some k, i_gid = None, i_type = Some t, i_name = None,
      i_precision = None, i_vintage = None\<rparr>"

text \<open>A catalogue that answers every request with one record for each id asked for.\<close>

definition echo_api :: "nat \<Rightarrow> string \<Rightarrow> int set \<Rightarrow> error + node list" where
  "echo_api k t S = Inr (map (\<lambda>i. mk_node t i ''2016-05-01'') (sorted_list_of_set S))"


text \<open>
  A catalogue that answers every request with one record of id 7 that has no
  \<^verbatim>\<open>generated-on\<close> attribute.
\<close>

definition undated_api :: "nat \<Rightarrow> string \<Rightarrow> int set \<Rightarrow> error + node list" where
  "undated_api k t S = Inr [\<lparr>tag = t, attrib_id = Some 7, attrib_generated_on = None\<rparr>]"

text \<open>The records of a document file; a file that does not exist has none.\<close>

definition contents :: "node list option \<Rightarrow> node list" where
  "contents d = (case d of None \<Rightarrow> [] | Some root \<Rightarrow> root)"

text \<open>
  The contract of the catalogue for one kind (\<^verbatim>\<open>api.xml?anime=4658/4199/11608\<close>): every
  request for a finite set of ids is answered, and the records of that kind in the answer
  are dated and are records of the ids asked for, at least one for each of them.
\<close>

definition catalogue_ok :: "(nat \<Rightarrow> string \<Rightarrow> int set \<Rightarrow> error + node list) \<Rightarrow> string \<Rightarrow> bool" where
  "catalogue_ok api entry_type =
     (\<forall>k S. finite S \<longrightarrow>
        (\<exists>t. api k entry_type S = Inr t \<and>
           (\<forall>n\<in>set t. tag n = entry_type \<longrightarrow>
              attrib_generated_on n \<noteq> None \<and> (\<exists>i\<in>S. attrib_id n = Some i)) \<and>
           (\<forall>i\<in>S. \<exists>n\<in>set t. tag n = entry_type \<and> attrib_id n = Some i)))"

text \<open>
  What the rounds so far have stored, against the table \<open>R\<close> and the records \<open>L\<close> of the
  start of the run: nothing is uncommitted, the document file holds the local copy, a row
  whose id was requested is the row of \<open>R\<close> with a date, every other row is the row of
  \<open>R\<close>, and the local copy is \<open>L\<close> followed by dated records of the kind, of the ids
  requested and of each of them.
\<close>

definition store_inv :: "string \<Rightarrow> table \<Rightarrow> node list \<Rightarrow> fetch_state \<Rightarrow> bool" where
  "store_inv entry_type R L s =
     (conn s = committed s \<and> contents (local_xml s) = local_root s \<and>
      length (conn s) = length R \<and>
      (\<forall>i<length R.
         (e_id (R ! i) \<in> \<Union>(set (requested s)) \<longrightarrow>
            (\<exists>d. conn s ! i = (R ! i)\<lparr>e_generated_on := Some d\<rparr>)) \<and>
         (e_id (R ! i) \<notin> \<Union>(set (requested s)) \<longrightarrow> conn s ! i = R ! i)) \<and>
      (\<exists>new. local_root s = L @ new \<and>
         (\<forall>n\<in>set new. tag n = entry_type \<and> attrib_generated_on n \<noteq> None \<and>
            (\<exists>i\<in>\<Union>(set (requested s)). attrib_id n = Some i)) \<and>
         (\<forall>i\<in>\<Union>(set (requested s)). \<exists>n\<in>set new. attrib_id n = Some i)))"

text \<open>The table a run left in the database file.\<close>

definition committed_of :: "(error \<times> fetch_state + fetch_state) option \<Rightarrow> table option" where
  "committed_of r = map_option (\<lambda>x. case x of Inl (e, s) \<Rightarrow> committed s | Inr s \<Rightarrow> committed s) r"

text \<open>What a run requested, whether it returned or raised.\<close>

definition requests_of :: "(error \<times> fetch_state + fetch_state) option \<Rightarrow> (error + unit) \<times> int set list" where
  "requests_of r =
     (case r of
        None \<Rightarrow> (Inr (), [])
      | Some (Inl (e, s)) \<Rightarrow> (Inl e, requested s)
      | Some (Inr s) \<Rightarrow> (Inr (), requested s))"

text \<open>
  A data directory whose \<^verbatim>\<open>anime.xml\<close> holds three records of id 1, before a
  regeneration, after one, and after two.
\<close>

definition dup_files :: files where
  "dup_files =
     \<lparr>ann_db = None, index_xml = Some [mk_item 1 ''anime''],
      anime_xml = Some [mk_node ''anime'' 1 ''2016-05-01'', mk_node ''anime'' 1 ''2016-05-02'',
                        mk_node ''anime'' 1 ''2016-05-03''],
      manga_xml = None\<rparr>"

definition dup_files_once :: files where
  "dup_files_once =
     \<lparr>ann_db = Some [mk_row 1 ''anime'' (Some ''2016-05-03'')],
      index_xml = Some [mk_item 1 ''anime''],
      anime_xml = Some [mk_node ''anime'' 1 ''2016-05-01'', mk_node ''anime'' 1 ''2016-05-03''],
      manga_xml = None\<rparr>"

definition dup_files_twice :: files where
  "dup_files_twice =
     \<lparr>ann_db = Some [mk_row 1 ''anime'' (Some ''2016-05-01'')],
      index_xml = Some [mk_item 1 ''anime''],
      anime_xml = Some [mk_node ''anime'' 1 ''2016-05-01''],
      manga_xml = None\<rparr>"

text \<open>A table of 100 anime rows, the first 37 of them fetched.\<close>

definition hundred_rows :: table where
  "hundred_rows =
     map (\<lambda>i. mk_row (int i) ''anime'' (if i < 37 then Some ''2016-05-01'' else None)) [0 ..< 100]"


text \<open>A table with two unfetched rows of the anime kind, one fetched, and one manga row.\<close>

definition mixed_rows :: table where
  "mixed_rows = [mk_row 1 ''anime'' None, mk_row 2 ''manga'' None,
                 mk_row 3 ''anime'' (Some ''2016-04-01''), mk_row 4 ''OAV'' None]"

section \<open>Properties\<close>

subsection \<open>Facts about the table\<close>

lemma update_entry_length: "length (update_entry rows v) = length rows"
  by (simp add: update_entry_def)

lemma update_entries_length: "length (update_entries rows vals) = length rows"
  unfolding update_entries_def
  by (induction vals arbitrary: rows) (simp_all add: update_entry_length)

lemma update_entry_nth:
  "i < length rows \<Longrightarrow> update_entry rows v ! i =
     (if Some (e_id (rows ! i)) = snd v then (rows ! i)\<lparr>e_generated_on := fst v\<rparr> else rows ! i)"
  by (simp add: update_entry_def)

lemma update_entries_nth_keeps:
  "i < length rows \<Longrightarrow>
   e_id (update_entries rows vals ! i) = e_id (rows ! i) \<and>
   e_type (update_entries rows vals ! i) = e_type (rows ! i)"
  unfolding update_entries_def
proof (induction vals arbitrary: rows)
  case Nil
  then show ?case by simp
next
  case (Cons v vals)
  have "i < length (update_entry rows v)" using Cons.prems by (simp add: update_entry_length)
  from Cons.IH[OF this] show ?case using Cons.prems by (simp add: update_entry_nth)
qed

lemma update_entries_nth_marked:
  "i < length rows \<Longrightarrow> \<forall>v\<in>set vals. fst v \<noteq> None \<Longrightarrow> e_generated_on (rows ! i) \<noteq> None \<Longrightarrow>
   e_generated_on (update_entries rows vals ! i) \<noteq> None"
  unfolding update_entries_def
proof (induction vals arbitrary: rows)
  case Nil
  then show ?case by simp
next
  case (Cons v vals)
  have l: "i < length (update_entry rows v)" using Cons.prems by (simp add: update_entry_length)
  have "e_generated_on (update_entry rows v ! i) \<noteq> None"
    using Cons.prems by (simp add: update_entry_nth)
  with Cons.IH[OF l] Cons.prems show ?case by simp
qed

lemma total_id_iff:
  "x \<in> set (select_total_id rows t) \<longleftrightarrow> (\<exists>i<length rows. e_id (rows ! i) = x \<and> type_clause t (rows ! i))"
  by (auto simp: select_total_id_def in_set_conv_nth)

lemma seen_id_iff:
  "x \<in> set (select_seen_id rows t) \<longleftrightarrow>
     (\<exists>i<length rows. e_id (rows ! i) = x \<and> type_clause t (rows ! i) \<and> e_generated_on (rows ! i) \<noteq> None)"
  by (auto simp: select_seen_id_def seen_clause_def in_set_conv_nth)

lemma type_clause_cong: "e_type r = e_type r' \<Longrightarrow> type_clause t r = type_clause t r'"
  by (simp add: type_clause_def)

subsection \<open>Deduplication\<close>

text \<open>
  On the sequence of ids of the specification, \<open>[1,2,1,3,2]\<close>, the loop does return
  \<open>[1,2,3]\<close>: the record 3 is skipped by the iteration after the removal before it, which
  does no harm there.
\<close>

lemma remove_duplicates_spec_example:
  "map_sum id ids_of (remove_duplicates (map (\<lambda>i. mk_node ''anime'' i ''2016-05-01'') [1, 2, 1, 3, 2]))
     = Inr [Some 1, Some 2, Some 3]"
  by (simp add: remove_duplicates_def mk_node_def remove_at_def ids_of_def)

text \<open>
  C1. Deduplicate keeps the first occurrence of each id and discards every later one. The
  loop of \<^verbatim>\<open>remove_duplicates\<close> removes children of the root while it iterates over it by
  index, so the child that follows a removed one is never looked at: of three records with
  id 1 the third one survives, and the result still holds the id twice.
\<close>

theorem remove_duplicates_keeps_a_duplicate:
  "remove_duplicates
     [mk_node ''anime'' 1 ''2016-05-01'', mk_node ''anime'' 1 ''2016-05-02'',
      mk_node ''anime'' 1 ''2016-05-03'']
   = Inr [mk_node ''anime'' 1 ''2016-05-01'', mk_node ''anime'' 1 ''2016-05-03'']"
  by (simp add: remove_duplicates_def mk_node_def remove_at_def)

subsection \<open>Fetch status\<close>

text \<open>
  C2, as stated: once \<^verbatim>\<open>generated_on\<close> of an id is not null, no later \<^verbatim>\<open>update_entries\<close>
  makes it null, and the id is never unfetched again. It fails on a record without the
  \<^verbatim>\<open>generated-on\<close> attribute: \<^verbatim>\<open>entry_to_tuple\<close> reads it with \<^verbatim>\<open>attrib.get\<close>, and the
  update writes the NULL.
\<close>

theorem update_entries_resets_counterexample:
  "update_entries [mk_row 7 ''anime'' (Some ''2016-05-01'')]
      [entry_to_tuple \<lparr>tag = ''anime'', attrib_id = Some 7, attrib_generated_on = None\<rparr>]
     = [mk_row 7 ''anime'' None] \<and>
   7 \<notin> unseen [mk_row 7 ''anime'' (Some ''2016-05-01'')] ''anime'' \<and>
   7 \<in> unseen [mk_row 7 ''anime'' None] ''anime''"
  by (simp add: update_entries_def update_entry_def entry_to_tuple_def mk_row_def unseen_def
      select_total_id_def select_seen_id_def type_clause_def seen_clause_def)

text \<open>
  The same inside a run of \<^verbatim>\<open>download_entries\<close>: the answer to the request for id 1
  holds a record of the fetched id 7 without the attribute, and the run commits the NULL.
\<close>

lemma download_entries_can_reset:
  "committed_of (download_entries undated_api smallest_sample
      [mk_row 1 ''anime'' None, mk_row 7 ''anime'' (Some ''2016-05-01'')] None ''anime'' 1 1)
     = Some [mk_row 1 ''anime'' None, mk_row 7 ''anime'' None]"
  by (simp add: committed_of_def download_entries_def initial_state_def fetch_loop.simps
      body_def choose_batch_def request_def persist_def mark_def report_def commit_def
      next_batch_def Let_def select_total_id_def select_seen_id_def type_clause_def seen_clause_def
      mk_row_def undated_api_def update_entries_def update_entry_def entry_to_tuple_def)

text \<open>
  C2, amended: when every record handed to \<^verbatim>\<open>update_entries\<close> carries a
  \<^verbatim>\<open>generated-on\<close> attribute, every row that was fetched before the call is the same id
  and still fetched after it, and no id is added to the unfetched ids of any kind.
\<close>

theorem update_entries_keeps_fetched:
  assumes "\<forall>n\<in>set nodes. attrib_generated_on n \<noteq> None"
  shows "(\<forall>i<length rows. e_generated_on (rows ! i) \<noteq> None \<longrightarrow>
            e_id (update_entries rows (map entry_to_tuple nodes) ! i) = e_id (rows ! i) \<and>
            e_generated_on (update_entries rows (map entry_to_tuple nodes) ! i) \<noteq> None) \<and>
         unseen (update_entries rows (map entry_to_tuple nodes)) entry_type \<subseteq> unseen rows entry_type"
proof -
  let ?vals = "map entry_to_tuple nodes"
  let ?rows' = "update_entries rows ?vals"
  have vals: "\<forall>v\<in>set ?vals. fst v \<noteq> None"
    using assms by (auto simp: entry_to_tuple_def)
  have keep: "\<And>i. i < length rows \<Longrightarrow>
      e_id (?rows' ! i) = e_id (rows ! i) \<and> e_type (?rows' ! i) = e_type (rows ! i)"
    by (rule update_entries_nth_keeps)
  have marked: "\<And>i. i < length rows \<Longrightarrow> e_generated_on (rows ! i) \<noteq> None \<Longrightarrow>
      e_generated_on (?rows' ! i) \<noteq> None"
    using vals by (rule update_entries_nth_marked[rotated])
  have len: "length ?rows' = length rows" by (rule update_entries_length)
  have sub: "unseen ?rows' entry_type \<subseteq> unseen rows entry_type"
  proof
    fix x assume x: "x \<in> unseen ?rows' entry_type"
    then have "x \<in> set (select_total_id ?rows' entry_type)"
      by (simp add: unseen_def)
    then obtain i where i: "i < length rows" "e_id (?rows' ! i) = x" "type_clause entry_type (?rows' ! i)"
      using len by (auto simp: total_id_iff)
    have tc: "\<And>j. j < length rows \<Longrightarrow> type_clause entry_type (?rows' ! j) = type_clause entry_type (rows ! j)"
      using keep by (intro type_clause_cong) simp
    have "x \<in> set (select_total_id rows entry_type)"
      unfolding total_id_iff using i keep[of i] tc[of i] by auto
    moreover have "x \<notin> set (select_seen_id rows entry_type)"
    proof
      assume "x \<in> set (select_seen_id rows entry_type)"
      then obtain j where j: "j < length rows" "e_id (rows ! j) = x" "type_clause entry_type (rows ! j)"
          "e_generated_on (rows ! j) \<noteq> None"
        unfolding seen_id_iff by blast
      have "x \<in> set (select_seen_id ?rows' entry_type)"
        unfolding seen_id_iff len using j keep[of j] tc[of j] marked[of j] by auto
      with x show False by (simp add: unseen_def)
    qed
    ultimately show "x \<in> unseen rows entry_type" by (simp add: unseen_def)
  qed
  show ?thesis using keep marked sub by blast
qed

theorem update_entries_keeps_fetched_witness:
  "attrib_generated_on (mk_node ''anime'' 7 ''2016-06-01'') \<noteq> None \<and>
   e_generated_on (update_entries [mk_row 7 ''anime'' (Some ''2016-05-01'')]
      (map entry_to_tuple [mk_node ''anime'' 7 ''2016-06-01'']) ! 0) \<noteq> None \<and>
   unseen (update_entries [mk_row 7 ''anime'' (Some ''2016-05-01'')]
      (map entry_to_tuple [mk_node ''anime'' 7 ''2016-06-01''])) ''anime''
     \<subseteq> unseen [mk_row 7 ''anime'' (Some ''2016-05-01'')] ''anime''"
  using update_entries_keeps_fetched[of "[mk_node ''anime'' 7 ''2016-06-01'']"
      "[mk_row 7 ''anime'' (Some ''2016-05-01'')]" "''anime''"]
  by (simp add: mk_node_def mk_row_def)

lemma key_filter_iff:
  "distinct (map f xs) \<Longrightarrow> r \<in> set xs \<Longrightarrow> (f r \<in> set (map f (filter P xs))) = P r"
  by (auto simp: distinct_map dest: inj_onD)

lemma card_key_filter:
  "distinct (map f xs) \<Longrightarrow> card (set (map f (filter P xs))) = length (filter P xs)"
  by (metis distinct_card distinct_map_filter length_map)

subsection \<open>Kind buckets\<close>

text \<open>
  C3. A row whose type is the string \<open>k\<close> is selected by the queries of
  \<^verbatim>\<open>download_entries\<close> for a requested kind other than \<^verbatim>\<open>anime\<close> exactly when \<open>k\<close> is
  \<^verbatim>\<open>manga\<close> or \<^verbatim>\<open>anthology\<close>, and for the requested kind \<^verbatim>\<open>anime\<close> exactly when it is
  neither; it is among the unfetched ids when, besides, its \<^verbatim>\<open>generated_on\<close> is null; and
  \<^verbatim>\<open>progress\<close> counts exactly the ids these queries select. (The ids of a table are
  different from each other: \<^verbatim>\<open>id\<close> is the primary key.)
\<close>

theorem kind_bucketing:
  assumes "distinct (map e_id rows)" and "r \<in> set rows" and "e_type r = Some k"
  shows "(e_id r \<in> set (select_total_id rows entry_type)) =
           (if entry_type = ''anime'' then k \<noteq> ''manga'' \<and> k \<noteq> ''anthology''
            else k = ''manga'' \<or> k = ''anthology'') \<and>
         (e_id r \<in> unseen rows entry_type) =
           ((if entry_type = ''anime'' then k \<noteq> ''manga'' \<and> k \<noteq> ''anthology''
             else k = ''manga'' \<or> k = ''anthology'') \<and> e_generated_on r = None) \<and>
         progress rows entry_type =
           (int (card (set (select_seen_id rows entry_type))),
            int (card (set (select_total_id rows entry_type))))"
proof -
  have tc: "type_clause entry_type r =
      (if entry_type = ''anime'' then k \<noteq> ''manga'' \<and> k \<noteq> ''anthology''
       else k = ''manga'' \<or> k = ''anthology'')"
    using assms(3) by (simp add: type_clause_def)
  have a: "(e_id r \<in> set (select_total_id rows entry_type)) = type_clause entry_type r"
    unfolding select_total_id_def using assms(1,2) by (rule key_filter_iff)
  have b: "(e_id r \<in> set (select_seen_id rows entry_type)) = seen_clause entry_type r"
    unfolding select_seen_id_def using assms(1,2) by (rule key_filter_iff)
  have c: "(e_id r \<in> unseen rows entry_type) = (type_clause entry_type r \<and> e_generated_on r = None)"
    unfolding unseen_def using a b by (auto simp: seen_clause_def)
  have d: "progress rows entry_type =
           (int (card (set (select_seen_id rows entry_type))),
            int (card (set (select_total_id rows entry_type))))"
    unfolding select_total_id_def select_seen_id_def progress_def Let_def
    by (simp only: card_key_filter[OF assms(1)])
  show ?thesis using a c d tc by simp
qed

theorem kind_bucketing_witness:
  "3 \<in> set (select_total_id [mk_row 3 ''anthology'' None, mk_row 4 ''OAV'' None] ''manga'') \<and>
   3 \<in> unseen [mk_row 3 ''anthology'' None, mk_row 4 ''OAV'' None] ''manga'' \<and>
   progress [mk_row 3 ''anthology'' None, mk_row 4 ''OAV'' None] ''manga'' = (0, 1)"
  using kind_bucketing[of "[mk_row 3 ''anthology'' None, mk_row 4 ''OAV'' None]"
      "mk_row 3 ''anthology'' None" "''anthology''" "''manga''"]
  by (simp add: mk_row_def select_total_id_def select_seen_id_def type_clause_def seen_clause_def)

subsection \<open>Progress\<close>

text \<open>The example of the specification: 37 of 100 rows fetched.\<close>

lemma progress_spec_example: "progress hundred_rows ''anime'' = (37, 100)"
  unfolding hundred_rows_def by code_simp

text \<open>
  C5, as stated: with no row of the kind, Progress fails with an error of its own instead of
  dividing by zero. \<^verbatim>\<open>progress\<close> has no such check: on the empty table it returns
  \<open>(0, 0)\<close>, and the status report of \<^verbatim>\<open>main\<close> then divides by that zero.
\<close>

theorem progress_empty_counterexample:
  "progress [] ''anime'' = (0, 0) \<and> status [] ''anime'' = Inl ZeroDivisionError"
  by (simp add: progress_def status_def)

text \<open>
  The status report of \<^verbatim>\<open>main\<close> raises \<^verbatim>\<open>ZeroDivisionError\<close> exactly when the total is 0,
  and reports the pair of \<^verbatim>\<open>progress\<close> otherwise.
\<close>

lemma status_progress:
  "status rows entry_type =
     (if snd (progress rows entry_type) = 0 then Inl ZeroDivisionError
      else Inr (progress rows entry_type))"
  by (simp add: status_def split: prod.splits)

text \<open>
  C5, amended: for every table and requested kind \<^verbatim>\<open>progress\<close> returns the pair (fetched,
  total), total the number of rows the kind's query selects and fetched the number of
  those with a non-null \<^verbatim>\<open>generated_on\<close>, so fetched is at most total; it never fails,
  and returns \<open>(0, 0)\<close> exactly when the kind has no row.
\<close>

theorem progress_counts:
  "progress rows entry_type =
     (int (length (filter (\<lambda>r. type_clause entry_type r \<and> e_generated_on r \<noteq> None) rows)),
      int (length (filter (type_clause entry_type) rows))) \<and>
   fst (progress rows entry_type) \<le> snd (progress rows entry_type) \<and>
   (progress rows entry_type = (0, 0)) = (filter (type_clause entry_type) rows = [])"
proof -
  have eq: "seen_clause entry_type = (\<lambda>r. type_clause entry_type r \<and> e_generated_on r \<noteq> None)"
    by (simp add: fun_eq_iff seen_clause_def)
  have le: "length (filter (\<lambda>r. type_clause entry_type r \<and> e_generated_on r \<noteq> None) rows)
      \<le> length (filter (type_clause entry_type) rows)"
    by (induction rows) auto
  show ?thesis
    unfolding progress_def Let_def eq using le by auto
qed

subsection \<open>Regeneration\<close>

lemmas regen_simps = regenerate_database_def read_cached_def remove_duplicates_def remove_at_def
  update_entries_def update_entry_def entry_to_tuple_def index_to_tuple_def with_id_def
  mk_node_def mk_row_def mk_item_def

text \<open>
  C6. Two regenerations in a row leave the same index store. With three records of id 1 in
  \<^verbatim>\<open>anime.xml\<close> they do not: the first regeneration rewrites the file with two of them
  and marks id 1 with the date of the last one, the second regeneration finds that file,
  removes one more record, and marks id 1 with the date of the first.
\<close>

theorem regenerate_twice_differs:
  "regenerate_database (Inl URLError) dup_files = Inr dup_files_once \<and>
   regenerate_database (Inl URLError) dup_files_once = Inr dup_files_twice \<and>
   ann_db dup_files_once \<noteq> ann_db dup_files_twice"
  by (simp add: dup_files_def dup_files_once_def dup_files_twice_def regen_simps)

subsection \<open>Facts about the fetch loop\<close>

lemmas stage_defs = body_def choose_batch_def request_def persist_def mark_def report_def commit_def

lemma smallest_sample_ok: "random_sample_ok smallest_sample"
  unfolding random_sample_ok_def smallest_sample_def
proof (intro allI impI)
  fix S :: "int set" and k :: nat
  assume "finite S" and "k \<le> card S"
  then show "length (take k (sorted_list_of_set S)) = k \<and>
             distinct (take k (sorted_list_of_set S)) \<and>
             set (take k (sorted_list_of_set S)) \<subseteq> S"
    using set_take_subset[of k "sorted_list_of_set S"] by (simp add: min_def)
qed

lemma next_batch_Inr:
  assumes "random_sample_ok sample" and "finite ns" and "0 < nb"
  shows "\<exists>b. next_batch sample ns nb = Inr b \<and> b \<subseteq> ns \<and>
             int (card b) = min (int (card ns)) nb \<and>
             (int (card ns) \<le> nb \<longrightarrow> b = ns)"
proof (cases "int (card ns) \<le> nb")
  case True
  then show ?thesis by (simp add: next_batch_def)
next
  case False
  then have k: "nat nb \<le> card ns" by simp
  from assms(1) assms(2) k
  have s: "length (sample ns (nat nb)) = nat nb" "distinct (sample ns (nat nb))"
      "set (sample ns (nat nb)) \<subseteq> ns"
    unfolding random_sample_ok_def by blast+
  have "card (set (sample ns (nat nb))) = nat nb"
    using s(1,2) by (simp add: distinct_card)
  with False s(3) assms(3) show ?thesis by (simp add: next_batch_def)
qed

lemma body_Inr:
  assumes "run (body api sample entry_type total_id) s = Inr s'"
  shows "\<exists>b t. next_batch sample (not_seen s) (min (num_batch s) (num_entries s)) = Inr b \<and>
           api (length (requested s)) entry_type b = Inr t \<and>
           total_id \<noteq> [] \<and>
           requested s' = requested s @ [b] \<and>
           not_seen s' = not_seen s - b \<and>
           num_batch s' = min (num_batch s) (num_entries s) \<and>
           num_entries s' = num_entries s - min (num_batch s) (num_entries s) \<and>
           local_root s' = local_root s @ filter (\<lambda>n. tag n = entry_type) t \<and>
           local_xml s' = Some (local_root s') \<and>
           conn s' = update_entries (conn s) (map entry_to_tuple (filter (\<lambda>n. tag n = entry_type) t)) \<and>
           committed s' = conn s'"
  using assms
  by (auto simp: stage_defs Let_def split: sum.splits if_splits)

lemma body_Inl:
  assumes "run (body api sample entry_type total_id) s = Inl (e, s')"
  shows "(next_batch sample (not_seen s) (min (num_batch s) (num_entries s)) = Inl e \<and>
            requested s' = requested s) \<or>
         (\<exists>b. next_batch sample (not_seen s) (min (num_batch s) (num_entries s)) = Inr b \<and>
            requested s' = requested s @ [b] \<and>
            (api (length (requested s)) entry_type b = Inl e \<or> (e = ZeroDivisionError \<and> total_id = [])))"
  using assms
  by (auto simp: stage_defs Let_def split: sum.splits if_splits)

lemma initial_state_simps:
  "num_batch (initial_state rows doc entry_type n nb) = nb"
  "num_entries (initial_state rows doc entry_type n nb) =
     (if n < 0 then int (card (unseen rows entry_type)) else n)"
  "not_seen (initial_state rows doc entry_type n nb) = unseen rows entry_type"
  "requested (initial_state rows doc entry_type n nb) = []"
  "conn (initial_state rows doc entry_type n nb) = rows"
  "committed (initial_state rows doc entry_type n nb) = rows"
  "local_xml (initial_state rows doc entry_type n nb) = doc"
  by (simp_all add: initial_state_def unseen_def Let_def)







lemma fetch_loop_all:
  assumes "random_sample_ok sample"
    and "finite (not_seen s)" and "num_entries s = int (card (not_seen s))" and "0 < num_batch s"
    and "\<Union>(set (requested s)) \<union> not_seen s = U" and "not_seen s \<subseteq> set total_id"
  shows "\<exists>r. fetch_loop api sample entry_type total_id s = Some r \<and>
          (case r of
             Inl (e, s') \<Rightarrow> \<Union>(set (requested s')) \<subseteq> U \<and> (\<exists>k b. api k entry_type b = Inl e)
           | Inr s' \<Rightarrow> \<Union>(set (requested s')) = U \<and> not_seen s' = {})"
  using assms(2-)
proof (induction "nat (num_entries s)" arbitrary: s rule: less_induct)
  case less
  show ?case
  proof (cases "0 < num_entries s")
    case False
    with less.prems have "not_seen s = {}" by simp
    with False less.prems show ?thesis
      by (subst fetch_loop.simps) simp
  next
    case True
    let ?nb = "min (num_batch s) (num_entries s)"
    have nb: "0 < ?nb" using True less.prems by simp
    from next_batch_Inr[OF assms(1) less.prems(1) nb] obtain b where
      b: "next_batch sample (not_seen s) ?nb = Inr b" "b \<subseteq> not_seen s"
         "int (card b) = min (int (card (not_seen s))) ?nb"
      by blast
    have cb: "int (card b) = ?nb" using b(3) less.prems(2) by simp
    have ne: "total_id \<noteq> []" using True less.prems by auto
    show ?thesis
    proof (cases "run (body api sample entry_type total_id) s")
      case (Inl p)
      obtain e s' where p: "p = (e, s')" by (cases p)
      from body_Inl[OF Inl[unfolded p]] b(1) ne
      have "requested s' = requested s @ [b]" "api (length (requested s)) entry_type b = Inl e"
        by auto
      then have "\<Union>(set (requested s')) \<subseteq> U" "\<exists>k b. api k entry_type b = Inl e"
        using b(2) less.prems(4) by auto
      then show ?thesis
        using True Inl p by (subst fetch_loop.simps) simp
    next
      case (Inr s')
      from body_Inr[OF Inr] b(1) have
        s': "requested s' = requested s @ [b]" "not_seen s' = not_seen s - b"
            "num_batch s' = ?nb" "num_entries s' = num_entries s - ?nb"
        by auto
      have "card (not_seen s - b) = card (not_seen s) - card b"
        using b(2) less.prems(1) by (simp add: card_Diff_subset finite_subset)
      moreover have "card b \<le> card (not_seen s)"
        using b(2) less.prems(1) by (simp add: card_mono)
      ultimately have inv: "num_entries s' = int (card (not_seen s'))"
        using s' cb less.prems(2) by simp
      have "nat (num_entries s') < nat (num_entries s)" using s'(4) nb True by simp
      moreover have "finite (not_seen s')" using s'(2) less.prems(1) by simp
      moreover have "0 < num_batch s'" using s'(3) nb by simp
      moreover have "\<Union>(set (requested s')) \<union> not_seen s' = U"
        using s'(1,2) b(2) less.prems(4) by auto
      moreover have "not_seen s' \<subseteq> set total_id" using s'(2) less.prems(5) by auto
      ultimately obtain r where
        r: "fetch_loop api sample entry_type total_id s' = Some r"
           "case r of
              Inl (e, s'') \<Rightarrow> \<Union>(set (requested s'')) \<subseteq> U \<and> (\<exists>k b. api k entry_type b = Inl e)
            | Inr s'' \<Rightarrow> \<Union>(set (requested s'')) = U \<and> not_seen s'' = {}"
        using less.hyps[of s'] inv by blast
      have "fetch_loop api sample entry_type total_id s = Some r"
        using True Inr r(1) by (subst fetch_loop.simps) simp
      then show ?thesis using r(2) by simp
    qed
  qed
qed

lemma update_entry_mem:
  "r \<in> set (update_entry rows v) \<Longrightarrow>
   r \<in> set rows \<or> (snd v = Some (e_id r) \<and> fst v = e_generated_on r)"
  by (auto simp: update_entry_def split: if_splits)

lemma update_entries_mem:
  "r \<in> set (update_entries rows vals) \<Longrightarrow>
   r \<in> set rows \<or> (\<exists>v\<in>set vals. snd v = Some (e_id r) \<and> fst v = e_generated_on r)"
  unfolding update_entries_def
proof (induction vals arbitrary: rows)
  case Nil
  then show ?case by simp
next
  case (Cons v vals)
  from Cons.prems have "r \<in> set (foldl update_entry (update_entry rows v) vals)" by simp
  from Cons.IH[OF this] show ?case
    using update_entry_mem[of r rows v] by auto
qed

lemma crash_points_body:
  assumes "(d, c) \<in> set (crash_points (body api sample entry_type total_id) s)"
  shows "(d = local_xml s \<and> c = committed s) \<or>
         (\<exists>ch. d = Some (local_root s @ ch) \<and>
            (c = committed s \<or> c = update_entries (conn s) (map entry_to_tuple ch)))"
proof -
  have len: "Suc (length (body api sample entry_type total_id)) = 7"
    by (simp add: body_def)
  from assms obtain k where k: "k < 7"
      "(d, c) = durable (run (take k (body api sample entry_type total_id)) s)"
    unfolding crash_points_def set_map set_upt len by auto
  then consider "k = 0" | "k = 1" | "k = 2" | "k = 3" | "k = 4" | "k = 5" | "k = 6"
    by linarith
  then show ?thesis
  proof cases
    case 1 with k(2) show ?thesis by (simp add: durable_def)
  next
    case 2 with k(2) show ?thesis
      by (auto simp: durable_def stage_defs Let_def split: sum.splits)
  next
    case 3 with k(2) show ?thesis
      by (auto simp: durable_def stage_defs Let_def split: sum.splits)
  next
    case 4 with k(2) show ?thesis
      by (auto simp: durable_def stage_defs Let_def split: sum.splits)
  next
    case 5 with k(2) show ?thesis
      by (auto simp: durable_def stage_defs Let_def split: sum.splits)
  next
    case 6 with k(2) show ?thesis
      by (auto simp: durable_def stage_defs Let_def split: sum.splits if_splits)
  next
    case 7 with k(2) show ?thesis
      by (auto simp: durable_def stage_defs Let_def split: sum.splits if_splits)
  qed
qed

subsection \<open>Facts about what a run stores\<close>

lemma update_entries_Cons: "update_entries rows (v # vals) = update_entries (update_entry rows v) vals"
  by (simp add: update_entries_def)

lemma update_entries_nth_cases:
  assumes "i < length rows" and "\<forall>v\<in>set vals. fst v \<noteq> None"
  shows "((\<exists>v\<in>set vals. snd v = Some (e_id (rows ! i))) \<longrightarrow>
            (\<exists>d. update_entries rows vals ! i = (rows ! i)\<lparr>e_generated_on := Some d\<rparr>)) \<and>
         ((\<forall>v\<in>set vals. snd v \<noteq> Some (e_id (rows ! i))) \<longrightarrow>
            update_entries rows vals ! i = rows ! i)"
  using assms
proof (induction vals arbitrary: rows)
  case Nil
  then show ?case by (simp add: update_entries_def)
next
  case (Cons v vals)
  let ?rows' = "update_entry rows v"
  have l: "i < length ?rows'" using Cons.prems(1) by (simp add: update_entry_length)
  have v: "fst v \<noteq> None" and vs: "\<forall>v\<in>set vals. fst v \<noteq> None" using Cons.prems(2) by auto
  have n: "?rows' ! i =
      (if Some (e_id (rows ! i)) = snd v then (rows ! i)\<lparr>e_generated_on := fst v\<rparr> else rows ! i)"
    using Cons.prems(1) by (rule update_entry_nth)
  then have id: "e_id (?rows' ! i) = e_id (rows ! i)" by simp
  note IH = Cons.IH[OF l vs, unfolded id]
  show ?case
  proof (cases "\<exists>w\<in>set vals. snd w = Some (e_id (rows ! i))")
    case True
    with IH obtain d where "update_entries ?rows' vals ! i = (?rows' ! i)\<lparr>e_generated_on := Some d\<rparr>"
      by blast
    then have "update_entries rows (v # vals) ! i = (rows ! i)\<lparr>e_generated_on := Some d\<rparr>"
      using n by (simp add: update_entries_Cons)
    with True show ?thesis by auto
  next
    case False
    with IH have e: "update_entries rows (v # vals) ! i = ?rows' ! i"
      by (simp add: update_entries_Cons)
    show ?thesis
    proof (cases "Some (e_id (rows ! i)) = snd v")
      case True
      from v obtain d where "fst v = Some d" by auto
      with e n True have "update_entries rows (v # vals) ! i = (rows ! i)\<lparr>e_generated_on := Some d\<rparr>"
        by simp
      with True show ?thesis by auto
    next
      case F2: False
      with e n have "update_entries rows (v # vals) ! i = rows ! i" by simp
      with False F2 show ?thesis by auto
    qed
  qed
qed

lemma update_entries_batch:
  assumes "i < length rows"
    and "\<forall>n\<in>set ch. attrib_generated_on n \<noteq> None \<and> (\<exists>j\<in>b. attrib_id n = Some j)"
    and "\<forall>j\<in>b. \<exists>n\<in>set ch. attrib_id n = Some j"
  shows "(e_id (rows ! i) \<in> b \<longrightarrow>
            (\<exists>d. update_entries rows (map entry_to_tuple ch) ! i = (rows ! i)\<lparr>e_generated_on := Some d\<rparr>)) \<and>
         (e_id (rows ! i) \<notin> b \<longrightarrow> update_entries rows (map entry_to_tuple ch) ! i = rows ! i)"
proof -
  let ?vals = "map entry_to_tuple ch"
  have d: "\<forall>v\<in>set ?vals. fst v \<noteq> None" using assms(2) by (auto simp: entry_to_tuple_def)
  have m: "(\<exists>v\<in>set ?vals. snd v = Some (e_id (rows ! i))) = (e_id (rows ! i) \<in> b)"
    using assms(2,3) by (auto simp: entry_to_tuple_def)
  from update_entries_nth_cases[OF assms(1) d] show ?thesis
    unfolding m[symmetric] by blast
qed

lemma catalogue_answer:
  assumes "catalogue_ok api entry_type" and "finite b" and "api k entry_type b = Inr t"
  shows "(\<forall>n\<in>set (filter (\<lambda>n. tag n = entry_type) t).
            tag n = entry_type \<and> attrib_generated_on n \<noteq> None \<and> (\<exists>i\<in>b. attrib_id n = Some i)) \<and>
         (\<forall>i\<in>b. \<exists>n\<in>set (filter (\<lambda>n. tag n = entry_type) t). attrib_id n = Some i)"
proof -
  from assms(1,2) obtain t' where t': "api k entry_type b = Inr t'"
    "\<forall>n\<in>set t'. tag n = entry_type \<longrightarrow>
              attrib_generated_on n \<noteq> None \<and> (\<exists>i\<in>b. attrib_id n = Some i)"
    "\<forall>i\<in>b. \<exists>n\<in>set t'. tag n = entry_type \<and> attrib_id n = Some i"
    unfolding catalogue_ok_def by blast
  with assms(3) have "t' = t" by simp
  with t'(2,3) show ?thesis by auto
qed

lemma store_invD:
  assumes "store_inv entry_type R L s"
  shows "conn s = committed s" and "contents (local_xml s) = local_root s"
    and "length (conn s) = length R"
    and "\<And>i. i < length R \<Longrightarrow>
         (e_id (R ! i) \<in> \<Union>(set (requested s)) \<longrightarrow>
            (\<exists>d. conn s ! i = (R ! i)\<lparr>e_generated_on := Some d\<rparr>)) \<and>
         (e_id (R ! i) \<notin> \<Union>(set (requested s)) \<longrightarrow> conn s ! i = R ! i)"
    and "\<exists>new. local_root s = L @ new \<and>
         (\<forall>n\<in>set new. tag n = entry_type \<and> attrib_generated_on n \<noteq> None \<and>
            (\<exists>i\<in>\<Union>(set (requested s)). attrib_id n = Some i)) \<and>
         (\<forall>i\<in>\<Union>(set (requested s)). \<exists>n\<in>set new. attrib_id n = Some i)"
proof -
  note a = assms[unfolded store_inv_def]
  show "conn s = committed s" using a by (elim conjE)
  show "contents (local_xml s) = local_root s" using a by (elim conjE)
  show "length (conn s) = length R" using a by (elim conjE)
  show "\<exists>new. local_root s = L @ new \<and>
         (\<forall>n\<in>set new. tag n = entry_type \<and> attrib_generated_on n \<noteq> None \<and>
            (\<exists>i\<in>\<Union>(set (requested s)). attrib_id n = Some i)) \<and>
         (\<forall>i\<in>\<Union>(set (requested s)). \<exists>n\<in>set new. attrib_id n = Some i)"
    using a by (elim conjE)
  have "\<forall>i<length R.
         (e_id (R ! i) \<in> \<Union>(set (requested s)) \<longrightarrow>
            (\<exists>d. conn s ! i = (R ! i)\<lparr>e_generated_on := Some d\<rparr>)) \<and>
         (e_id (R ! i) \<notin> \<Union>(set (requested s)) \<longrightarrow> conn s ! i = R ! i)"
    using a by (elim conjE)
  then show "\<And>i. i < length R \<Longrightarrow>
         (e_id (R ! i) \<in> \<Union>(set (requested s)) \<longrightarrow>
            (\<exists>d. conn s ! i = (R ! i)\<lparr>e_generated_on := Some d\<rparr>)) \<and>
         (e_id (R ! i) \<notin> \<Union>(set (requested s)) \<longrightarrow> conn s ! i = R ! i)"
    by (rule allE) (rule mp)
qed

lemma store_invI:
  assumes "conn s = committed s" and "contents (local_xml s) = local_root s"
    and "length (conn s) = length R"
    and "\<And>i. i < length R \<Longrightarrow>
         (e_id (R ! i) \<in> \<Union>(set (requested s)) \<longrightarrow>
            (\<exists>d. conn s ! i = (R ! i)\<lparr>e_generated_on := Some d\<rparr>)) \<and>
         (e_id (R ! i) \<notin> \<Union>(set (requested s)) \<longrightarrow> conn s ! i = R ! i)"
    and "\<exists>new. local_root s = L @ new \<and>
         (\<forall>n\<in>set new. tag n = entry_type \<and> attrib_generated_on n \<noteq> None \<and>
            (\<exists>i\<in>\<Union>(set (requested s)). attrib_id n = Some i)) \<and>
         (\<forall>i\<in>\<Union>(set (requested s)). \<exists>n\<in>set new. attrib_id n = Some i)"
  shows "store_inv entry_type R L s"
  unfolding store_inv_def
  by (intro conjI allI impI assms(1) assms(2) assms(3) assms(5)) (rule assms(4)[THEN conjunct1, THEN mp], assumption+, rule assms(4)[THEN conjunct2, THEN mp], assumption+)

lemma body_store:
  assumes cat: "catalogue_ok api entry_type"
    and inv: "store_inv entry_type R L s"
    and run: "run (body api sample entry_type total_id) s = Inr s'"
    and b: "next_batch sample (not_seen s) (min (num_batch s) (num_entries s)) = Inr b" "finite b"
  shows "store_inv entry_type R L s'"
proof -
  let ?Q = "\<Union>(set (requested s))"
  from body_Inr[OF run] b(1) obtain t where
    t: "api (length (requested s)) entry_type b = Inr t"
    and s': "requested s' = requested s @ [b]"
      "local_root s' = local_root s @ filter (\<lambda>n. tag n = entry_type) t"
      "local_xml s' = Some (local_root s')"
      "conn s' = update_entries (conn s) (map entry_to_tuple (filter (\<lambda>n. tag n = entry_type) t))"
      "committed s' = conn s'"
    by auto
  define ch where "ch = filter (\<lambda>n. tag n = entry_type) t"
  note s'' = s'(2,4)[folded ch_def]
  from catalogue_answer[OF cat b(2) t, folded ch_def]
  have ch1: "\<forall>n\<in>set ch. tag n = entry_type \<and> attrib_generated_on n \<noteq> None \<and> (\<exists>i\<in>b. attrib_id n = Some i)"
    and ch2: "\<forall>i\<in>b. \<exists>n\<in>set ch. attrib_id n = Some i"
    by (rule conjunct1, rule conjunct2)
  have ch1': "\<forall>n\<in>set ch. attrib_generated_on n \<noteq> None \<and> (\<exists>j\<in>b. attrib_id n = Some j)"
    using ch1 by blast
  have Q': "\<Union>(set (requested s')) = ?Q \<union> b" using s'(1) by auto
  note len = store_invD(3)[OF inv] and rows = store_invD(4)[OF inv]
  from store_invD(5)[OF inv] obtain new where new: "local_root s = L @ new"
      "\<forall>n\<in>set new. tag n = entry_type \<and> attrib_generated_on n \<noteq> None \<and> (\<exists>i\<in>?Q. attrib_id n = Some i)"
      "\<forall>i\<in>?Q. \<exists>n\<in>set new. attrib_id n = Some i"
    by blast
  have rows': "(e_id (R ! i) \<in> ?Q \<union> b \<longrightarrow> (\<exists>d. conn s' ! i = (R ! i)\<lparr>e_generated_on := Some d\<rparr>)) \<and>
         (e_id (R ! i) \<notin> ?Q \<union> b \<longrightarrow> conn s' ! i = R ! i)" if i: "i < length R" for i
  proof -
    have id: "e_id (conn s ! i) = e_id (R ! i)"
      using rows[OF i] by (cases "e_id (R ! i) \<in> ?Q") auto
    have li: "i < length (conn s)" using i len by simp
    note u = update_entries_batch[OF li ch1' ch2, unfolded id, folded s''(2)]
    show ?thesis
    proof (cases "e_id (R ! i) \<in> b")
      case True
      with u obtain d where d: "conn s' ! i = (conn s ! i)\<lparr>e_generated_on := Some d\<rparr>" by blast
      have "conn s' ! i = (R ! i)\<lparr>e_generated_on := Some d\<rparr>"
        using rows[OF i] d by (cases "e_id (R ! i) \<in> ?Q") auto
      with True show ?thesis by blast
    next
      case False
      with u have "conn s' ! i = conn s ! i" by blast
      with False rows[OF i] show ?thesis by auto
    qed
  qed
  have doc: "\<exists>new'. local_root s' = L @ new' \<and>
         (\<forall>n\<in>set new'. tag n = entry_type \<and> attrib_generated_on n \<noteq> None \<and>
            (\<exists>i\<in>?Q \<union> b. attrib_id n = Some i)) \<and>
         (\<forall>i\<in>?Q \<union> b. \<exists>n\<in>set new'. attrib_id n = Some i)"
  proof (intro exI[of _ "new @ ch"] conjI)
    show "local_root s' = L @ new @ ch" using s''(1) new(1) by simp
    show "\<forall>n\<in>set (new @ ch). tag n = entry_type \<and> attrib_generated_on n \<noteq> None \<and>
            (\<exists>i\<in>?Q \<union> b. attrib_id n = Some i)"
    proof
      fix n assume "n \<in> set (new @ ch)"
      then consider "n \<in> set new" | "n \<in> set ch" by auto
      then show "tag n = entry_type \<and> attrib_generated_on n \<noteq> None \<and>
            (\<exists>i\<in>?Q \<union> b. attrib_id n = Some i)"
      proof cases
        case 1 with new(2) show ?thesis by blast
      next
        case 2 with ch1 show ?thesis by blast
      qed
    qed
    show "\<forall>i\<in>?Q \<union> b. \<exists>n\<in>set (new @ ch). attrib_id n = Some i"
    proof
      fix i assume "i \<in> ?Q \<union> b"
      then consider "i \<in> ?Q" | "i \<in> b" by blast
      then show "\<exists>n\<in>set (new @ ch). attrib_id n = Some i"
      proof cases
        case 1
        with new(3) obtain n where "n \<in> set new" "attrib_id n = Some i" by blast
        then show ?thesis by auto
      next
        case 2
        with ch2 obtain n where "n \<in> set ch" "attrib_id n = Some i" by blast
        then show ?thesis by auto
      qed
    qed
  qed
  have "conn s' = committed s'" using s'(5) by simp
  moreover have "contents (local_xml s') = local_root s'" using s'(3) by (simp add: contents_def)
  moreover have "length (conn s') = length R" using s'(4) len by (simp add: update_entries_length)
  ultimately show ?thesis
    using rows' doc unfolding Q'[symmetric] by (rule store_invI)
qed

lemma fetch_loop_store:
  assumes "random_sample_ok sample" and cat: "catalogue_ok api entry_type"
    and "finite (not_seen s)" and "num_entries s = int (card (not_seen s))" and "0 < num_batch s"
    and "\<Union>(set (requested s)) \<union> not_seen s = U" and "not_seen s \<subseteq> set total_id"
    and "store_inv entry_type R L s"
  shows "\<exists>s'. fetch_loop api sample entry_type total_id s = Some (Inr s') \<and>
          \<Union>(set (requested s')) = U \<and> store_inv entry_type R L s'"
  using assms(3-)
proof (induction "nat (num_entries s)" arbitrary: s rule: less_induct)
  case less
  show ?case
  proof (cases "0 < num_entries s")
    case False
    with less.prems have "not_seen s = {}" by simp
    with False less.prems show ?thesis
      by (subst fetch_loop.simps) simp
  next
    case True
    let ?nb = "min (num_batch s) (num_entries s)"
    have nb: "0 < ?nb" using True less.prems by simp
    from next_batch_Inr[OF assms(1) less.prems(1) nb] obtain b where
      b: "next_batch sample (not_seen s) ?nb = Inr b" "b \<subseteq> not_seen s"
         "int (card b) = min (int (card (not_seen s))) ?nb"
      by blast
    have fb: "finite b" using b(2) less.prems(1) by (rule finite_subset)
    have cb: "int (card b) = ?nb" using b(3) less.prems(2) by simp
    have ne: "total_id \<noteq> []" using True less.prems by auto
    from cat fb obtain t where t: "api (length (requested s)) entry_type b = Inr t"
      unfolding catalogue_ok_def by blast
    show ?thesis
    proof (cases "run (body api sample entry_type total_id) s")
      case (Inl p)
      obtain e s' where p: "p = (e, s')" by (cases p)
      from body_Inl[OF Inl[unfolded p]] b(1) ne t show ?thesis by auto
    next
      case (Inr s')
      from body_Inr[OF Inr] b(1) have
        s': "requested s' = requested s @ [b]" "not_seen s' = not_seen s - b"
            "num_batch s' = ?nb" "num_entries s' = num_entries s - ?nb"
        by auto
      have "card (not_seen s - b) = card (not_seen s) - card b"
        using b(2) less.prems(1) by (simp add: card_Diff_subset finite_subset)
      moreover have "card b \<le> card (not_seen s)"
        using b(2) less.prems(1) by (simp add: card_mono)
      ultimately have inv: "num_entries s' = int (card (not_seen s'))"
        using s' cb less.prems(2) by simp
      have "nat (num_entries s') < nat (num_entries s)" using s'(4) nb True by simp
      moreover have "finite (not_seen s')" using s'(2) less.prems(1) by simp
      moreover have "0 < num_batch s'" using s'(3) nb by simp
      moreover have "\<Union>(set (requested s')) \<union> not_seen s' = U"
        using s'(1,2) b(2) less.prems(4) by auto
      moreover have "not_seen s' \<subseteq> set total_id" using s'(2) less.prems(5) by auto
      moreover have "store_inv entry_type R L s'"
        using cat less.prems(6) Inr b(1) fb by (rule body_store)
      ultimately obtain r where
        r: "fetch_loop api sample entry_type total_id s' = Some (Inr r)"
           "\<Union>(set (requested r)) = U" "store_inv entry_type R L r"
        using less.hyps[of s'] inv by blast
      have "fetch_loop api sample entry_type total_id s = Some (Inr r)"
        using True Inr r(1) by (subst fetch_loop.simps) simp
      then show ?thesis using r(2,3) by simp
    qed
  qed
qed


lemma initial_store_inv:
  "store_inv entry_type rows (contents doc) (initial_state rows doc entry_type n nb)"
proof (rule store_invI)
  show "\<exists>new. local_root (initial_state rows doc entry_type n nb) = contents doc @ new \<and>
         (\<forall>n'\<in>set new. tag n' = entry_type \<and> attrib_generated_on n' \<noteq> None \<and>
            (\<exists>i\<in>\<Union>(set (requested (initial_state rows doc entry_type n nb))). attrib_id n' = Some i)) \<and>
         (\<forall>i\<in>\<Union>(set (requested (initial_state rows doc entry_type n nb))). \<exists>n'\<in>set new. attrib_id n' = Some i)"
    by (rule exI[of _ "[]"]) (simp add: initial_state_def contents_def Let_def)
qed (simp_all add: initial_state_def contents_def Let_def)

lemma marked_unseen_empty:
  assumes len: "length C = length R"
    and rows: "\<And>i. i < length R \<Longrightarrow>
         (e_id (R ! i) \<in> unseen R t \<longrightarrow> (\<exists>d. C ! i = (R ! i)\<lparr>e_generated_on := Some d\<rparr>)) \<and>
         (e_id (R ! i) \<notin> unseen R t \<longrightarrow> C ! i = R ! i)"
  shows "unseen C t = {}"
proof (rule ccontr)
  assume "unseen C t \<noteq> {}"
  then obtain x where x: "x \<in> set (select_total_id C t)" "x \<notin> set (select_seen_id C t)"
    by (auto simp: unseen_def)
  have same: "e_id (C ! i) = e_id (R ! i) \<and> e_type (C ! i) = e_type (R ! i)" if "i < length R" for i
    using rows[OF that] by (cases "e_id (R ! i) \<in> unseen R t") auto
  from x(1) obtain i where i: "i < length R" "e_id (C ! i) = x" "type_clause t (C ! i)"
    using len by (auto simp: total_id_iff)
  have tR: "type_clause t (R ! i)" "e_id (R ! i) = x"
    using i same[OF i(1)] type_clause_cong[of "C ! i" "R ! i" t] by auto
  show False
  proof (cases "x \<in> unseen R t")
    case True
    with rows[OF i(1)] tR(2) obtain d where "C ! i = (R ! i)\<lparr>e_generated_on := Some d\<rparr>" by blast
    then have "e_generated_on (C ! i) \<noteq> None" by simp
    with i have "x \<in> set (select_seen_id C t)"
      using len unfolding seen_id_iff by auto
    with x(2) show False by simp
  next
    case False
    have "x \<in> set (select_total_id R t)"
      unfolding total_id_iff using i(1) tR by blast
    with False have "x \<in> set (select_seen_id R t)" by (simp add: unseen_def)
    then obtain j where j: "j < length R" "e_id (R ! j) = x" "type_clause t (R ! j)"
        "e_generated_on (R ! j) \<noteq> None"
      unfolding seen_id_iff by blast
    with False rows[OF j(1)] have "C ! j = R ! j" by simp
    with j have "x \<in> set (select_seen_id C t)"
      using len unfolding seen_id_iff by auto
    with x(2) show False by simp
  qed
qed

lemma echo_api_ok: "catalogue_ok echo_api entry_type"
  unfolding catalogue_ok_def echo_api_def
  by (auto simp: mk_node_def)

lemma mixed_rows_unseen: "unseen mixed_rows ''anime'' = {1, 4}"
  by (auto simp: mixed_rows_def unseen_def select_total_id_def select_seen_id_def type_clause_def
      seen_clause_def mk_row_def)

lemma mixed_rows_run:
  "committed_of (download_entries echo_api smallest_sample mixed_rows None ''anime'' (- 1) 1)
     = Some [mk_row 1 ''anime'' (Some ''2016-05-01''), mk_row 2 ''manga'' None,
             mk_row 3 ''anime'' (Some ''2016-04-01''), mk_row 4 ''OAV'' (Some ''2016-05-01'')]"
  by code_simp

subsection \<open>Sampling\<close>

text \<open>
  C4. For every finite set of unseen ids and every batch size above 0, the batch chosen
  at lines 136-139 is a subset of the unseen ids with exactly min(|unseen|, batch size)
  elements, and it is the whole set when |unseen| is at most the batch size. (A batch is a
  set, so no id is repeated; the sampled case rests on the contract of
  \<^verbatim>\<open>random.sample\<close>.)
\<close>

theorem next_batch_bounds:
  assumes "random_sample_ok sample" and "finite ns" and "0 < nb"
  shows "\<exists>b. next_batch sample ns nb = Inr b \<and> b \<subseteq> ns \<and>
             int (card b) = min (int (card ns)) nb \<and>
             (int (card ns) \<le> nb \<longrightarrow> b = ns)"
  using assms by (rule next_batch_Inr)

theorem next_batch_bounds_witness:
  "\<exists>b. next_batch smallest_sample {1, 2, 3} 2 = Inr b \<and> b \<subseteq> {1, 2, 3} \<and> int (card b) = 2"
  using next_batch_bounds[OF smallest_sample_ok, of "{1, 2, 3}" 2] by simp

subsection \<open>Order of the two writes\<close>

text \<open>
  C7. In a round of the fetch loop that starts with nothing uncommitted, at every point
  where the run can stop (between the statement groups of the round, or at an exception)
  the committed table is either the one of the start of the round, or the one updated
  with the batch's records while the document file already holds those records appended.
  So every row of the committed table that the round changed has its record, id and date,
  in the document file: entries may be left unmarked after a crash, never marked without
  their record. A round that completes leaves nothing uncommitted, so the next round
  starts the same way.
\<close>

theorem document_written_before_commit:
  assumes "conn s = committed s"
    and "(d, c) \<in> set (crash_points (body api sample entry_type total_id) s)"
  shows "(c = committed s \<or>
          (\<exists>ch. d = Some (local_root s @ ch) \<and>
                c = update_entries (committed s) (map entry_to_tuple ch))) \<and>
         (\<forall>r\<in>set c. r \<notin> set (committed s) \<longrightarrow>
            (\<exists>root n. d = Some root \<and> n \<in> set root \<and> attrib_id n = Some (e_id r) \<and>
               attrib_generated_on n = e_generated_on r)) \<and>
         (\<forall>s'. run (body api sample entry_type total_id) s = Inr s' \<longrightarrow> conn s' = committed s')"
proof -
  have next_round: "conn s' = committed s'"
    if "run (body api sample entry_type total_id) s = Inr s'" for s'
    using body_Inr[OF that] by auto
  from crash_points_body[OF assms(2)] assms(1)
  consider "c = committed s"
    | ch where "d = Some (local_root s @ ch)" "c = update_entries (committed s) (map entry_to_tuple ch)"
    by auto
  then show ?thesis
  proof cases
    case 1
    then show ?thesis using next_round by simp
  next
    case 2
    have "\<exists>n\<in>set ch. attrib_id n = Some (e_id r) \<and> attrib_generated_on n = e_generated_on r"
      if "r \<in> set c" "r \<notin> set (committed s)" for r
      using update_entries_mem[of r "committed s" "map entry_to_tuple ch"] that 2(2)
      by (auto simp: entry_to_tuple_def)
    then have "\<forall>r\<in>set c. r \<notin> set (committed s) \<longrightarrow>
            (\<exists>root n. d = Some root \<and> n \<in> set root \<and> attrib_id n = Some (e_id r) \<and>
               attrib_generated_on n = e_generated_on r)"
      using 2(1) by auto
    then show ?thesis using 2 next_round by blast
  qed
qed

theorem document_written_before_commit_witness:
  "(Some [mk_node ''anime'' 1 ''2016-05-01''], [mk_row 1 ''anime'' (Some ''2016-05-01'')])
     \<in> set (crash_points (body echo_api smallest_sample ''anime'' [1])
              (initial_state [mk_row 1 ''anime'' None] None ''anime'' 1 1)) \<and>
   (\<exists>root n. Some [mk_node ''anime'' 1 ''2016-05-01''] = Some root \<and> n \<in> set root \<and>
      attrib_id n = Some 1 \<and> attrib_generated_on n = Some ''2016-05-01'')"
proof -
  let ?s = "initial_state [mk_row 1 ''anime'' None] None ''anime'' 1 1"
  have h1: "conn ?s = committed ?s"
    by (simp add: initial_state_simps)
  have h2: "(Some [mk_node ''anime'' 1 ''2016-05-01''], [mk_row 1 ''anime'' (Some ''2016-05-01'')])
     \<in> set (crash_points (body echo_api smallest_sample ''anime'' [1]) ?s)"
    by (simp add: crash_points_def durable_def stage_defs next_batch_def Let_def initial_state_def
        select_total_id_def select_seen_id_def type_clause_def seen_clause_def mk_row_def
        mk_node_def echo_api_def update_entries_def update_entry_def entry_to_tuple_def)
  have h3: "mk_row 1 ''anime'' (Some ''2016-05-01'') \<notin> set (committed ?s)"
    by (simp add: initial_state_simps mk_row_def)
  from document_written_before_commit[OF h1 h2] h3 h2 show ?thesis
    by (simp add: mk_row_def)
qed

subsection \<open>Termination of the fetch loop\<close>




subsection \<open>A negative count\<close>

text \<open>
  C9. Called with a negative count (and a batch size above 0), \<^verbatim>\<open>download_entries\<close> runs
  as with the count |unseen|: the run ends; when it returns, the ids it requested from
  the catalogue are exactly the unfetched ids of the kind and none is left unseen; when
  it raises, the exception is one of the catalogue's and the ids requested so far are
  among the unfetched ones. With a catalogue that answers every request by dated records
  of the ids asked for, the run returns with everything committed: every row of an
  unfetched id of the kind now has a date, every other row is as it was, so that no id
  of the kind is unfetched any more, and the document file holds its former records
  followed by dated records of the kind, of unfetched ids only and of each of them.
\<close>

theorem negative_count_fetches_all_unseen:
  assumes "n < 0" and "0 < nb" and "random_sample_ok sample"
  shows "download_entries api sample rows doc entry_type n nb =
           download_entries api sample rows doc entry_type (int (card (unseen rows entry_type))) nb \<and>
         (\<exists>r. download_entries api sample rows doc entry_type n nb = Some r \<and>
            (case r of
               Inl (e, s) \<Rightarrow>
                 \<Union>(set (requested s)) \<subseteq> unseen rows entry_type \<and> (\<exists>k b. api k entry_type b = Inl e)
             | Inr s \<Rightarrow> \<Union>(set (requested s)) = unseen rows entry_type \<and> not_seen s = {})) \<and>
         (catalogue_ok api entry_type \<longrightarrow>
            (\<exists>s new. download_entries api sample rows doc entry_type n nb = Some (Inr s) \<and>
               committed s = conn s \<and> length (committed s) = length rows \<and>
               (\<forall>i<length rows.
                  (e_id (rows ! i) \<in> unseen rows entry_type \<longrightarrow>
                     (\<exists>d. committed s ! i = (rows ! i)\<lparr>e_generated_on := Some d\<rparr>)) \<and>
                  (e_id (rows ! i) \<notin> unseen rows entry_type \<longrightarrow> committed s ! i = rows ! i)) \<and>
               unseen (committed s) entry_type = {} \<and>
               contents (local_xml s) = contents doc @ new \<and>
               (\<forall>n\<in>set new. tag n = entry_type \<and> attrib_generated_on n \<noteq> None \<and>
                  (\<exists>i\<in>unseen rows entry_type. attrib_id n = Some i)) \<and>
               (\<forall>i\<in>unseen rows entry_type. \<exists>n\<in>set new. attrib_id n = Some i)))"
proof -
  let ?s = "initial_state rows doc entry_type n nb"
  let ?U = "unseen rows entry_type"
  have same: "initial_state rows doc entry_type (int (card ?U)) nb = ?s"
    using assms(1) by (simp add: initial_state_def unseen_def Let_def)
  have init: "finite (not_seen ?s)" "num_entries ?s = int (card (not_seen ?s))" "0 < num_batch ?s"
    "\<Union>(set (requested ?s)) \<union> not_seen ?s = ?U"
    "not_seen ?s \<subseteq> set (select_total_id rows entry_type)"
    using assms(1,2) by (auto simp: initial_state_simps unseen_def)
  from fetch_loop_all[OF assms(3) init, of api entry_type] same
  have AB: "download_entries api sample rows doc entry_type n nb =
           download_entries api sample rows doc entry_type (int (card ?U)) nb \<and>
         (\<exists>r. download_entries api sample rows doc entry_type n nb = Some r \<and>
            (case r of
               Inl (e, s) \<Rightarrow>
                 \<Union>(set (requested s)) \<subseteq> ?U \<and> (\<exists>k b. api k entry_type b = Inl e)
             | Inr s \<Rightarrow> \<Union>(set (requested s)) = ?U \<and> not_seen s = {}))"
    by (simp add: download_entries_def)
  have C: "\<exists>s new. download_entries api sample rows doc entry_type n nb = Some (Inr s) \<and>
               committed s = conn s \<and> length (committed s) = length rows \<and>
               (\<forall>i<length rows.
                  (e_id (rows ! i) \<in> ?U \<longrightarrow>
                     (\<exists>d. committed s ! i = (rows ! i)\<lparr>e_generated_on := Some d\<rparr>)) \<and>
                  (e_id (rows ! i) \<notin> ?U \<longrightarrow> committed s ! i = rows ! i)) \<and>
               unseen (committed s) entry_type = {} \<and>
               contents (local_xml s) = contents doc @ new \<and>
               (\<forall>n\<in>set new. tag n = entry_type \<and> attrib_generated_on n \<noteq> None \<and>
                  (\<exists>i\<in>?U. attrib_id n = Some i)) \<and>
               (\<forall>i\<in>?U. \<exists>n\<in>set new. attrib_id n = Some i)"
    if cat: "catalogue_ok api entry_type"
  proof -
    from fetch_loop_store[OF assms(3) cat init initial_store_inv]
    obtain s where s: "download_entries api sample rows doc entry_type n nb = Some (Inr s)"
        "\<Union>(set (requested s)) = ?U" "store_inv entry_type rows (contents doc) s"
      unfolding download_entries_def by blast
    note d = store_invD[OF s(3), unfolded s(2)]
    have c: "committed s = conn s" using d(1) by simp
    have l: "length (committed s) = length rows" using d(3) c by simp
    have r: "(e_id (rows ! i) \<in> ?U \<longrightarrow>
                     (\<exists>d. committed s ! i = (rows ! i)\<lparr>e_generated_on := Some d\<rparr>)) \<and>
                  (e_id (rows ! i) \<notin> ?U \<longrightarrow> committed s ! i = rows ! i)" if "i < length rows" for i
      using d(4)[OF that] unfolding c .
    have u: "unseen (committed s) entry_type = {}"
      using l r by (rule marked_unseen_empty)
    from d(5) obtain new where new: "local_root s = contents doc @ new"
      "\<forall>n\<in>set new. tag n = entry_type \<and> attrib_generated_on n \<noteq> None \<and>
                  (\<exists>i\<in>?U. attrib_id n = Some i)"
      "\<forall>i\<in>?U. \<exists>n\<in>set new. attrib_id n = Some i"
      by blast
    have "contents (local_xml s) = contents doc @ new" using d(2) new(1) by simp
    with s(1) c l r u new(2,3) show ?thesis by blast
  qed
  show ?thesis
    by (intro conjI impI AB[THEN conjunct1] AB[THEN conjunct2] C)
qed

theorem negative_count_fetches_all_unseen_witness:
  "\<exists>s new. download_entries echo_api smallest_sample mixed_rows None ''anime'' (- 1) 1 = Some (Inr s) \<and>
     committed s = conn s \<and> length (committed s) = 4 \<and>
     unseen (committed s) ''anime'' = {} \<and>
     (\<exists>d. committed s ! 0 = (mk_row 1 ''anime'' None)\<lparr>e_generated_on := Some d\<rparr>) \<and>
     committed s ! 1 = mk_row 2 ''manga'' None \<and>
     contents (local_xml s) = new \<and>
     (\<exists>n\<in>set new. attrib_id n = Some 1) \<and> (\<exists>n\<in>set new. attrib_id n = Some 4)"
proof -
  have n: "(- 1 :: int) < 0" and nb: "(0::int) < 1" by simp_all
  from negative_count_fetches_all_unseen[OF n nb smallest_sample_ok, of echo_api mixed_rows None "''anime''",
      THEN conjunct2, THEN conjunct2, THEN mp, OF echo_api_ok, unfolded mixed_rows_unseen]
  obtain s new where s:
    "download_entries echo_api smallest_sample mixed_rows None ''anime'' (- 1) 1 = Some (Inr s)"
    "committed s = conn s" "length (committed s) = length mixed_rows"
    "\<forall>i<length mixed_rows.
        (e_id (mixed_rows ! i) \<in> {1, 4} \<longrightarrow>
           (\<exists>d. committed s ! i = (mixed_rows ! i)\<lparr>e_generated_on := Some d\<rparr>)) \<and>
        (e_id (mixed_rows ! i) \<notin> {1, 4} \<longrightarrow> committed s ! i = mixed_rows ! i)"
    "unseen (committed s) ''anime'' = {}"
    "contents (local_xml s) = contents None @ new"
    "\<forall>i\<in>{1, 4}. \<exists>n\<in>set new. attrib_id n = Some i"
    by blast
  have l: "length mixed_rows = 4" by (simp add: mixed_rows_def)
  have r0: "\<exists>d. committed s ! 0 = (mk_row 1 ''anime'' None)\<lparr>e_generated_on := Some d\<rparr>"
    using s(4)[rule_format, of 0] by (simp add: mixed_rows_def mk_row_def)
  have r1: "committed s ! 1 = mk_row 2 ''manga'' None"
    using s(4)[rule_format, of 1] by (simp add: mixed_rows_def mk_row_def)
  have c: "contents (local_xml s) = new" using s(6) by (simp add: contents_def)
  have n1: "\<exists>n\<in>set new. attrib_id n = Some 1" and n4: "\<exists>n\<in>set new. attrib_id n = Some 4"
    using s(7) by simp_all
  show ?thesis
    using s(1,2,5) s(3)[unfolded l] r0 r1 c n1 n4 by blast
qed

subsection \<open>An empty kind\<close>

text \<open>
  C10. Called with a positive count on a table with no row of the requested kind (and a
  batch size that is not negative), \<^verbatim>\<open>download_entries\<close> requests the empty set of ids
  and, once the catalogue has answered, raises \<^verbatim>\<open>ZeroDivisionError\<close> in the progress
  message of the first round, before anything is committed.
\<close>

theorem empty_bucket_divides_by_zero:
  assumes "0 < n" and "0 \<le> nb" and "select_total_id rows entry_type = []"
    and "api 0 entry_type {} = Inr t"
  shows "\<exists>s. download_entries api sample rows doc entry_type n nb = Some (Inl (ZeroDivisionError, s)) \<and>
             requested s = [{}] \<and> committed s = rows"
  using assms
  by (simp add: download_entries_def initial_state_def fetch_loop.simps stage_defs next_batch_def Let_def)

theorem empty_bucket_divides_by_zero_witness:
  "requests_of (download_entries echo_api smallest_sample [mk_row 2 ''manga'' None] None ''anime'' 50 50)
     = (Inl ZeroDivisionError, [{}])"
  using empty_bucket_divides_by_zero[of 50 50 "[mk_row 2 ''manga'' None]" "''anime''" echo_api "[]"
      smallest_sample None]
  by (auto simp: requests_of_def select_total_id_def type_clause_def mk_row_def echo_api_def)

end
